theory Spec2Isabelle
  imports Main "HOL-Library.List_Lexorder" "HOL-Library.Char_ord"
begin

section \<open>The plugin registry of Plugins.cpp\<close>

text \<open>
  A shallow embedding of \<^verbatim>\<open>source/Plugins.cpp\<close>: the dependency check of a plugin,
  the loader of one plugin directory, the overlay of the two settings files, the save
  step and the toggle and query accessors. The global \<^verbatim>\<open>Set<Plugin> plugins\<close> is
  passed in and returned explicitly, and so is the file system \<^verbatim>\<open>Save\<close> writes to.
\<close>

subsection \<open>Errors\<close>

text \<open>
  Nothing in the file raises on purpose. Two reads can leave the range of their
  container: \<^verbatim>\<open>DataNode::Token(i)\<close> past the tokens of a node, and
  \<^verbatim>\<open>std::string::substr(pos, n)\<close> with \<open>pos\<close> past the end of the string. Both are
  branches of the model.
\<close>

datatype error = TokenOutOfRange | SubstrOutOfRange

definition bindE :: "error + 'a \<Rightarrow> ('a \<Rightarrow> error + 'b) \<Rightarrow> error + 'b" where
  "bindE m f = (case m of Inl e \<Rightarrow> Inl e | Inr x \<Rightarrow> f x)"

subsection \<open>std::set of strings\<close>

text \<open>
  A \<^verbatim>\<open>std::set<std::string>\<close> is the list of its elements in iteration order, that is
  ascending and without repetition. \<open>set_insert\<close> is \<^verbatim>\<open>insert\<close>, \<open>set_count\<close> is
  \<^verbatim>\<open>count(x)\<close> read as a condition.
\<close>

type_synonym string_set = "string list"

fun set_insert :: "string \<Rightarrow> string_set \<Rightarrow> string_set" where
  "set_insert x [] = [x]"
| "set_insert x (y # ys) =
     (if x = y then y # ys
      else if x < y then x # y # ys
      else y # set_insert x ys)"

definition set_count :: "string_set \<Rightarrow> string \<Rightarrow> bool" where
  "set_count s x = (x \<in> set s)"

subsection \<open>Data model\<close>

record PluginDependencies =
  gameVersion :: string
  required :: string_set
  optional :: string_set
  conflicted :: string_set

record Plugin =
  name :: string
  path :: string
  aboutText :: string
  version :: string
  authors :: string_set
  tags :: string_set
  dependencies :: PluginDependencies
  enabled :: bool
  currentState :: bool

definition no_dependencies :: PluginDependencies where
  "no_dependencies = \<lparr>gameVersion = [], required = [], optional = [], conflicted = []\<rparr>"

subsection \<open>Plugin::PluginDependencies\<close>

text \<open>
  \<^verbatim>\<open>Logger::LogError\<close> appends one message to the log. The three messages of
  \<^verbatim>\<open>IsValid\<close> are kept as constructors that carry the dependency they name.
\<close>

datatype diagnostic =
    OptionalAlsoRequired string
  | ConflictAlsoRequired string
  | ConflictAlsoOptional string

definition IsEmpty :: "PluginDependencies \<Rightarrow> bool" where
  "IsEmpty d = (required d = [] \<and> optional d = [] \<and> conflicted d = [])"

text \<open>The first loop of \<^verbatim>\<open>IsValid\<close>: it only reports.\<close>

fun optional_loop :: "string_set \<Rightarrow> string list \<Rightarrow> diagnostic list \<Rightarrow> diagnostic list" where
  "optional_loop req [] lg = lg"
| "optional_loop req (dependency # rest) lg =
     optional_loop req rest
       (if set_count req dependency then lg @ [OptionalAlsoRequired dependency] else lg)"

text \<open>The second loop: it reports and clears the flag, and never leaves early.\<close>

fun conflicted_loop ::
  "string_set \<Rightarrow> string_set \<Rightarrow> string list \<Rightarrow> bool \<times> diagnostic list \<Rightarrow> bool \<times> diagnostic list" where
  "conflicted_loop req opt [] st = st"
| "conflicted_loop req opt (dependency # rest) (isValid, lg) =
     conflicted_loop req opt rest
       (if set_count req dependency then (False, lg @ [ConflictAlsoRequired dependency])
        else if set_count opt dependency then (False, lg @ [ConflictAlsoOptional dependency])
        else (isValid, lg))"

definition IsValid_run :: "PluginDependencies \<Rightarrow> bool \<times> diagnostic list" where
  "IsValid_run d =
     conflicted_loop (required d) (optional d) (conflicted d)
       (True, optional_loop (required d) (optional d) [])"

definition PluginDependencies_IsValid :: "PluginDependencies \<Rightarrow> bool" where
  "PluginDependencies_IsValid d = fst (IsValid_run d)"

definition IsValid_diagnostics :: "PluginDependencies \<Rightarrow> diagnostic list" where
  "IsValid_diagnostics d = snd (IsValid_run d)"

subsection \<open>Plugin::IsValid\<close>

definition Plugin_IsValid :: "Plugin \<Rightarrow> bool" where
  "Plugin_IsValid p = (name p \<noteq> [])"

subsection \<open>Collaborators that are not in this file\<close>

text \<open>
  \<^verbatim>\<open>DataNode\<close>, \<^verbatim>\<open>DataFile\<close>, \<^verbatim>\<open>DataWriter\<close>, \<^verbatim>\<open>Files\<close> and \<^verbatim>\<open>Set\<close> are used by
  \<^verbatim>\<open>Plugins.cpp\<close> and declared elsewhere. What the code relies on is written down
  here; what it leaves open (the text format, the directories, the initial flags of a
  \<^verbatim>\<open>Plugin\<close>) is a field of the record \<open>host\<close>.
\<close>

text \<open>
  Modelled from the spec: the class \<^verbatim>\<open>DataNode\<close> is missing. A node has an ordered list
  of tokens and zero or more child nodes. \<^verbatim>\<open>Size()\<close> is the number of tokens,
  \<^verbatim>\<open>Token(i)\<close> the token at index \<open>i\<close>, which must exist, \<^verbatim>\<open>HasChildren()\<close>
  whether there is a child.
\<close>

datatype DataNode = DataNode (tokens: "string list") (children: "DataNode list")

definition Size :: "DataNode \<Rightarrow> nat" where
  "Size n = length (tokens n)"

definition Token :: "DataNode \<Rightarrow> nat \<Rightarrow> error + string" where
  "Token n i = (if i < Size n then Inr (tokens n ! i) else Inl TokenOutOfRange)"

definition HasChildren :: "DataNode \<Rightarrow> bool" where
  "HasChildren n = (children n \<noteq> [])"

record host =
  Resources :: string
  Config :: string
  parse :: "string \<Rightarrow> DataNode list"
  serialise :: "DataNode list \<Rightarrow> string"
  token_Value :: "string \<Rightarrow> bool"
  WriteToken :: "bool \<Rightarrow> string"
  default_enabled :: bool
  default_currentState :: bool

text \<open>
  \<open>Resources\<close> and \<open>Config\<close> are \<^verbatim>\<open>Files::Resources()\<close> and \<^verbatim>\<open>Files::Config()\<close>;
  \<open>parse\<close> is the parser of \<^verbatim>\<open>DataFile\<close> on the text of a file and \<open>serialise\<close> the
  text \<^verbatim>\<open>DataWriter\<close> produces for a tree; \<open>token_Value t\<close> tells whether
  \<^verbatim>\<open>DataNode::Value\<close> of the token \<open>t\<close> is non-zero, which is what the conversion of
  that number to \<^verbatim>\<open>bool\<close> stores; \<open>WriteToken b\<close> is the token \<^verbatim>\<open>DataWriter\<close> writes
  for the boolean \<open>b\<close>; the last two fields are the initial values of
  \<^verbatim>\<open>Plugin::enabled\<close> and \<^verbatim>\<open>Plugin::currentState\<close>.
\<close>

type_synonym filesystem = "string \<Rightarrow> string option"

text \<open>
  Modelled from the spec: the class \<^verbatim>\<open>Files\<close> is missing. \<^verbatim>\<open>Exists\<close> is the existence
  check; \<^verbatim>\<open>Read\<close> gives the content of a file and the empty string when there is none.
\<close>

definition Files_Exists :: "filesystem \<Rightarrow> string \<Rightarrow> bool" where
  "Files_Exists fs p = (case fs p of None \<Rightarrow> False | Some txt \<Rightarrow> True)"

definition Files_Read :: "filesystem \<Rightarrow> string \<Rightarrow> string" where
  "Files_Read fs p = (case fs p of None \<Rightarrow> [] | Some txt \<Rightarrow> txt)"

text \<open>
  Modelled from the spec: the class \<^verbatim>\<open>DataFile\<close> is missing. Iterating over
  \<^verbatim>\<open>DataFile(path)\<close> visits the top-level nodes of the parsed file; a file that does
  not exist has none.
\<close>

definition DataFile :: "host \<Rightarrow> filesystem \<Rightarrow> string \<Rightarrow> DataNode list" where
  "DataFile h fs p = (case fs p of None \<Rightarrow> [] | Some txt \<Rightarrow> parse h txt)"

definition DataNode_Value :: "host \<Rightarrow> DataNode \<Rightarrow> nat \<Rightarrow> error + bool" where
  "DataNode_Value h n i = bindE (Token n i) (\<lambda>t. Inr (token_Value h t))"

subsection \<open>The registry\<close>

text \<open>
  Modelled from the spec: the class template \<^verbatim>\<open>Set\<close> and the declaration of
  \<^verbatim>\<open>Plugin\<close> are missing. The registry maps a name to a record, with unique keys, in
  ascending order of the keys. \<^verbatim>\<open>Get(name)\<close> is the lookup-or-create accessor: it
  returns the slot of \<open>name\<close> and creates it, with empty fields, when there is none. A
  pointer into the registry is the key of its slot; \<open>assign\<close> writes through it.
\<close>

type_synonym registry = "(string \<times> Plugin) list"

definition default_Plugin :: "host \<Rightarrow> Plugin" where
  "default_Plugin h =
     \<lparr>name = [], path = [], aboutText = [], version = [], authors = [], tags = [],
      dependencies = no_dependencies,
      enabled = default_enabled h, currentState = default_currentState h\<rparr>"

fun slot_insert :: "string \<Rightarrow> Plugin \<Rightarrow> registry \<Rightarrow> registry" where
  "slot_insert k v [] = [(k, v)]"
| "slot_insert k v ((k', p) # r) =
     (if k < k' then (k, v) # (k', p) # r else (k', p) # slot_insert k v r)"

definition Get :: "host \<Rightarrow> string \<Rightarrow> registry \<Rightarrow> Plugin \<times> registry" where
  "Get h k reg =
     (case map_of reg k of
        Some p \<Rightarrow> (p, reg)
      | None \<Rightarrow> (default_Plugin h, slot_insert k (default_Plugin h) reg))"

fun assign :: "string \<Rightarrow> Plugin \<Rightarrow> registry \<Rightarrow> registry" where
  "assign k v [] = []"
| "assign k v ((k', p) # r) = (if k = k' then (k', v) # r else (k', p) # assign k v r)"

subsection \<open>std::string::rfind and std::string::substr\<close>

text \<open>
  \<^verbatim>\<open>size_t\<close> has 64 bits; its subtraction and addition wrap around. \<open>rfind s c pos\<close> is
  the last index not after \<open>pos\<close> where \<open>s\<close> holds \<open>c\<close>, and \<open>npos\<close> when there is
  none. \<open>substr s pos n\<close> throws when \<open>pos\<close> is past the end and otherwise gives at
  most \<open>n\<close> characters from \<open>pos\<close> on.
\<close>

definition size_t_range :: nat where
  "size_t_range = 2 ^ 64"

definition npos :: nat where
  "npos = size_t_range - 1"

definition size_sub :: "nat \<Rightarrow> nat \<Rightarrow> nat" where
  "size_sub a b = (a + size_t_range - b) mod size_t_range"

definition size_add :: "nat \<Rightarrow> nat \<Rightarrow> nat" where
  "size_add a b = (a + b) mod size_t_range"

fun find_last :: "char \<Rightarrow> string \<Rightarrow> nat option" where
  "find_last c [] = None"
| "find_last c (x # xs) =
     (case find_last c xs of
        Some i \<Rightarrow> Some (Suc i)
      | None \<Rightarrow> if x = c then Some 0 else None)"

definition rfind :: "string \<Rightarrow> char \<Rightarrow> nat \<Rightarrow> nat" where
  "rfind s c pos =
     (case find_last c (take (Suc (min pos (length s - 1))) s) of
        None \<Rightarrow> npos
      | Some i \<Rightarrow> i)"

definition substr :: "string \<Rightarrow> nat \<Rightarrow> nat \<Rightarrow> error + string" where
  "substr s pos n = (if length s < pos then Inl SubstrOutOfRange else Inr (take n (drop pos s)))"

subsection \<open>Plugins::Load\<close>

text \<open>The name of the folder containing the plugin (the first two statements).\<close>

definition folder_name :: "string \<Rightarrow> error + string" where
  "folder_name pth =
     (let pos = size_add (rfind pth (CHR ''/'') (size_sub (length pth) 2)) 1
      in substr pth pos (size_sub (size_sub (length pth) 1) pos))"

text \<open>The local variables of \<^verbatim>\<open>Load\<close> that the loop over \<^verbatim>\<open>plugin.txt\<close> fills.\<close>

record Locals =
  l_name :: string
  l_aboutText :: string
  l_version :: string
  l_authors :: string_set
  l_tags :: string_set
  l_dependencies :: PluginDependencies
  hasName :: bool

text \<open>
  The innermost loops, \<^verbatim>\<open>for(const DataNode &grand : child) s.insert(grand.Token(0))\<close>:
  the same loop fills \<open>authors\<close>, \<open>tags\<close>, \<open>required\<close>, \<open>optional\<close> and
  \<open>conflicted\<close>.
\<close>

fun insert_Token0 :: "DataNode list \<Rightarrow> string_set \<Rightarrow> error + string_set" where
  "insert_Token0 [] s = Inr s"
| "insert_Token0 (grand # rest) s =
     bindE (Token grand 0) (\<lambda>t. insert_Token0 rest (set_insert t s))"

text \<open>
  The loop over the children of a \<^verbatim>\<open>dependencies\<close> node. The last branch only prints
  a trace.
\<close>

fun dependencies_loop :: "DataNode list \<Rightarrow> PluginDependencies \<Rightarrow> error + PluginDependencies" where
  "dependencies_loop [] d = Inr d"
| "dependencies_loop (grand # rest) d =
     bindE (Token grand 0) (\<lambda>t0.
       if t0 = ''game version'' then
         bindE (Token grand 1) (\<lambda>t1. dependencies_loop rest (d\<lparr>gameVersion := t1\<rparr>))
       else if t0 = ''requires'' \<and> HasChildren grand then
         bindE (insert_Token0 (children grand) (required d))
           (\<lambda>s. dependencies_loop rest (d\<lparr>required := s\<rparr>))
       else if t0 = ''optional'' \<and> HasChildren grand then
         bindE (insert_Token0 (children grand) (optional d))
           (\<lambda>s. dependencies_loop rest (d\<lparr>optional := s\<rparr>))
       else if t0 = ''conflicts'' \<and> HasChildren grand then
         bindE (insert_Token0 (children grand) (conflicted d))
           (\<lambda>s. dependencies_loop rest (d\<lparr>conflicted := s\<rparr>))
       else dependencies_loop rest d)"

text \<open>
  The loop over the top-level nodes of \<^verbatim>\<open>plugin.txt\<close>. The last branch only prints a
  trace.
\<close>

fun plugin_txt_loop :: "DataNode list \<Rightarrow> Locals \<Rightarrow> error + Locals" where
  "plugin_txt_loop [] v = Inr v"
| "plugin_txt_loop (child # rest) v =
     bindE (Token child 0) (\<lambda>t0.
       if t0 = ''name'' \<and> 2 \<le> Size child then
         bindE (Token child 1) (\<lambda>t1. plugin_txt_loop rest (v\<lparr>l_name := t1, hasName := True\<rparr>))
       else if t0 = ''about'' \<and> 2 \<le> Size child then
         bindE (Token child 1)
           (\<lambda>t1. plugin_txt_loop rest (v\<lparr>l_aboutText := l_aboutText v @ t1 @ [CHR 0x0A]\<rparr>))
       else if t0 = ''version'' \<and> 2 \<le> Size child then
         bindE (Token child 1) (\<lambda>t1. plugin_txt_loop rest (v\<lparr>l_version := t1\<rparr>))
       else if t0 = ''authors'' \<and> HasChildren child then
         bindE (insert_Token0 (children child) (l_authors v))
           (\<lambda>s. plugin_txt_loop rest (v\<lparr>l_authors := s\<rparr>))
       else if t0 = ''tags'' \<and> HasChildren child then
         bindE (insert_Token0 (children child) (l_tags v))
           (\<lambda>s. plugin_txt_loop rest (v\<lparr>l_tags := s\<rparr>))
       else if t0 = ''dependencies'' \<and> HasChildren child then
         bindE (dependencies_loop (children child) (l_dependencies v))
           (\<lambda>d. plugin_txt_loop rest (v\<lparr>l_dependencies := d\<rparr>))
       else plugin_txt_loop rest v)"

text \<open>
  Lines 111 to 165: the name of the folder, the declarations of the locals and the
  loop over \<^verbatim>\<open>DataFile(pluginFile)\<close>.
\<close>

definition Load_locals :: "host \<Rightarrow> filesystem \<Rightarrow> string \<Rightarrow> error + Locals" where
  "Load_locals h fs pth =
     bindE (folder_name pth) (\<lambda>nm.
       plugin_txt_loop (DataFile h fs (pth @ ''plugin.txt''))
         \<lparr>l_name = nm, l_aboutText = [], l_version = [], l_authors = [], l_tags = [],
          l_dependencies = no_dependencies, hasName = False\<rparr>)"

text \<open>
  Lines 167 to 198. The warning about a missing \<open>name\<close> and the two messages of the
  rejections go to the log only. The result is the registry after the call and the
  pointer returned: \<open>None\<close> is \<^verbatim>\<open>nullptr\<close>, \<open>Some k\<close> points to the slot of \<open>k\<close>.
\<close>

definition Load_register ::
  "host \<Rightarrow> filesystem \<Rightarrow> string \<Rightarrow> Locals \<Rightarrow> registry \<Rightarrow> string option \<times> registry" where
  "Load_register h fs pth v reg =
     (case Get h (l_name v) reg of (plugin, reg1) \<Rightarrow>
        if Plugin_IsValid plugin then (None, reg1)
        else if \<not> PluginDependencies_IsValid (l_dependencies v) then (None, reg1)
        else
          (Some (l_name v),
           assign (l_name v)
             (plugin\<lparr>name := l_name v,
                path := pth,
                aboutText :=
                  (if l_aboutText v = [] then Files_Read fs (pth @ ''about.txt'')
                   else l_aboutText v),
                version := l_version v,
                authors := l_authors v,
                tags := l_tags v,
                dependencies := l_dependencies v\<rparr>)
             reg1))"

definition Load ::
  "host \<Rightarrow> filesystem \<Rightarrow> string \<Rightarrow> registry \<Rightarrow> error + (string option \<times> registry)" where
  "Load h fs pth reg = bindE (Load_locals h fs pth) (\<lambda>v. Inr (Load_register h fs pth v reg))"

subsection \<open>Plugins::LoadSettings\<close>

text \<open>The inner loop of \<^verbatim>\<open>LoadSettingsFromFile\<close>, over the children of a \<open>state\<close> node.\<close>

fun state_children_loop :: "host \<Rightarrow> DataNode list \<Rightarrow> registry \<Rightarrow> error + registry" where
  "state_children_loop h [] reg = Inr reg"
| "state_children_loop h (child # rest) reg =
     (if Size child = 2 then
        bindE (Token child 0) (\<lambda>k.
          case Get h k reg of (plugin, reg1) \<Rightarrow>
            bindE (DataNode_Value h child 1) (\<lambda>b.
              state_children_loop h rest
                (assign k (plugin\<lparr>enabled := b, currentState := b\<rparr>) reg1)))
      else state_children_loop h rest reg)"

text \<open>The outer loop, over the top-level nodes of the file.\<close>

fun prefs_loop :: "host \<Rightarrow> DataNode list \<Rightarrow> registry \<Rightarrow> error + registry" where
  "prefs_loop h [] reg = Inr reg"
| "prefs_loop h (node # rest) reg =
     bindE (Token node 0) (\<lambda>t0.
       if t0 \<noteq> ''state'' then prefs_loop h rest reg
       else bindE (state_children_loop h (children node) reg) (\<lambda>reg1. prefs_loop h rest reg1))"

definition LoadSettingsFromFile :: "host \<Rightarrow> filesystem \<Rightarrow> string \<Rightarrow> registry \<Rightarrow> error + registry" where
  "LoadSettingsFromFile h fs pth reg = prefs_loop h (DataFile h fs pth) reg"

definition LoadSettings :: "host \<Rightarrow> filesystem \<Rightarrow> registry \<Rightarrow> error + registry" where
  "LoadSettings h fs reg =
     bindE (LoadSettingsFromFile h fs (Resources h @ ''plugins.txt'') reg)
       (\<lambda>reg1. LoadSettingsFromFile h fs (Config h @ ''plugins.txt'') reg1)"

subsection \<open>Plugins::Save\<close>

text \<open>
  Modelled from the spec: the class \<^verbatim>\<open>DataWriter\<close> is missing. \<^verbatim>\<open>Write\<close> emits one node
  with the tokens given, \<^verbatim>\<open>BeginChild\<close> and \<^verbatim>\<open>EndChild\<close> enclose the children of the
  node written last, and the file holds the serialised tree once the writer goes out of
  scope. \<open>Save_loop\<close> is the loop between the two calls.
\<close>

fun Save_loop :: "host \<Rightarrow> registry \<Rightarrow> DataNode list" where
  "Save_loop h [] = []"
| "Save_loop h ((k, p) # r) =
     (if Plugin_IsValid p then DataNode [k, WriteToken h (currentState p)] [] # Save_loop h r
      else Save_loop h r)"

definition Save :: "host \<Rightarrow> filesystem \<Rightarrow> registry \<Rightarrow> filesystem" where
  "Save h fs reg =
     (if reg = [] then fs
      else fs(Config h @ ''plugins.txt'' \<mapsto> serialise h [DataNode [''state''] (Save_loop h reg)]))"

subsection \<open>Plugins::HasChanged and Plugins::TogglePlugin\<close>

fun HasChanged :: "registry \<Rightarrow> bool" where
  "HasChanged [] = False"
| "HasChanged ((k, p) # r) = (if enabled p \<noteq> currentState p then True else HasChanged r)"

definition TogglePlugin :: "host \<Rightarrow> string \<Rightarrow> registry \<Rightarrow> registry" where
  "TogglePlugin h nm reg =
     (case Get h nm reg of (plugin, reg1) \<Rightarrow>
        assign nm (plugin\<lparr>currentState := \<not> currentState plugin\<rparr>) reg1)"

subsection \<open>The directory name, in the words of the specification\<close>

text \<open>
  The trailing directory-name component of a path that ends in a separator: what stands
  between the last separator before the final character and that final character.
\<close>

definition trailing_component :: "string \<Rightarrow> string" where
  "trailing_component pth = rev (takeWhile (\<lambda>c. c \<noteq> CHR ''/'') (rev (butlast pth)))"

subsection \<open>Keys and names\<close>

text \<open>
  Every record with a non-empty name is stored under that name. \<^verbatim>\<open>Save\<close> tests the
  name of a record and writes the key of its slot.
\<close>

definition keys_match :: "registry \<Rightarrow> bool" where
  "keys_match reg = list_all (\<lambda>kp. name (snd kp) = [] \<or> name (snd kp) = fst kp) reg"

subsection \<open>Settings entries, in the words of the specification\<close>

text \<open>
  The two-token entries \<open><name> <bool>\<close> of a settings file, in file order: the
  children with exactly two tokens of the top-level nodes whose first token is
  \<open>state\<close>. \<open>last_entry\<close> is the token of the last entry for a name, if there is one.
\<close>

definition child_entries :: "DataNode list \<Rightarrow> (string \<times> string) list" where
  "child_entries cs =
     concat (map (\<lambda>child. case tokens child of [k, b] \<Rightarrow> [(k, b)] | _ \<Rightarrow> []) cs)"

definition state_entries :: "DataNode list \<Rightarrow> (string \<times> string) list" where
  "state_entries nodes =
     concat (map (\<lambda>node. if take 1 (tokens node) = [''state'']
                          then child_entries (children node) else []) nodes)"

definition last_entry :: "DataNode list \<Rightarrow> string \<Rightarrow> string option" where
  "last_entry nodes nm = map_of (rev (state_entries nodes)) nm"

text \<open>What one entry does to the registry: both flags of the slot of its name are set.\<close>

definition put_flags :: "host \<Rightarrow> registry \<Rightarrow> string \<times> string \<Rightarrow> registry" where
  "put_flags h reg e =
     assign (fst e)
       ((fst (Get h (fst e) reg))
          \<lparr>enabled := token_Value h (snd e), currentState := token_Value h (snd e)\<rparr>)
       (snd (Get h (fst e) reg))"

subsection \<open>An installation to run the functions on\<close>

text \<open>
  Four plugin directories and the two settings files. \<open>alpha\<close> declares \<open>core\<close> both
  as required and as a conflict; \<open>beta\<close> and \<open>beta-copy\<close> declare the same name;
  \<open>gamma\<close> has a \<open>game version\<close> line without a value; \<open>delta\<close> and
  \<open>more/delta\<close> have no \<^verbatim>\<open>plugin.txt\<close>. The parser is given by the trees of these
  files.
\<close>

definition alpha_tree :: "DataNode list" where
  "alpha_tree =
     [DataNode [''name'', ''alpha''] [],
      DataNode [''dependencies'']
        [DataNode [''requires''] [DataNode [''core''] []],
         DataNode [''conflicts''] [DataNode [''core''] []]]]"

definition beta_tree :: "DataNode list" where
  "beta_tree =
     [DataNode [''name'', ''beta''] [],
      DataNode [''version'', ''1.2''] [],
      DataNode [''authors''] [DataNode [''zoe''] [], DataNode [''adam''] []],
      DataNode [''dependencies''] [DataNode [''game version'', ''0.10.0''] []]]"

definition gamma_tree :: "DataNode list" where
  "gamma_tree = [DataNode [''dependencies''] [DataNode [''game version''] []]]"

definition global_tree :: "DataNode list" where
  "global_tree = [DataNode [''state''] [DataNode [''beta'', ''0''] [], DataNode [''omega'', ''1''] []]]"

definition local_tree :: "DataNode list" where
  "local_tree = [DataNode [''state''] [DataNode [''beta'', ''1''] []]]"

definition example_parse :: "string \<Rightarrow> DataNode list" where
  "example_parse txt =
     (if txt = ''<alpha>'' then alpha_tree
      else if txt = ''<beta>'' then beta_tree
      else if txt = ''<gamma>'' then gamma_tree
      else if txt = ''<global>'' then global_tree
      else if txt = ''<local>'' then local_tree
      else [])"

definition example_serialise :: "DataNode list \<Rightarrow> string" where
  "example_serialise t = (if t = local_tree then ''<local>'' else ''<other>'')"

definition example_token_Value :: "string \<Rightarrow> bool" where
  "example_token_Value t = (t = ''1'')"

definition example_WriteToken :: "bool \<Rightarrow> string" where
  "example_WriteToken b = (if b then ''1'' else ''0'')"

definition example_host :: host where
  "example_host =
     \<lparr>Resources = ''resources/'', Config = ''config/'',
      parse = example_parse, serialise = example_serialise,
      token_Value = example_token_Value, WriteToken = example_WriteToken,
      default_enabled = False, default_currentState = False\<rparr>"

definition example_fs :: filesystem where
  "example_fs p =
     (if p = ''plugins/alpha/plugin.txt'' then Some ''<alpha>''
      else if p = ''plugins/beta/plugin.txt'' then Some ''<beta>''
      else if p = ''plugins/beta-copy/plugin.txt'' then Some ''<beta>''
      else if p = ''plugins/gamma/plugin.txt'' then Some ''<gamma>''
      else if p = ''plugins/delta/about.txt'' then Some ''About delta.''
      else if p = ''resources/plugins.txt'' then Some ''<global>''
      else if p = ''config/plugins.txt'' then Some ''<local>''
      else None)"

text \<open>The records the loader makes of \<open>beta\<close> and of \<open>delta\<close>.\<close>

definition beta_record :: Plugin where
  "beta_record =
     \<lparr>name = ''beta'', path = ''plugins/beta/'', aboutText = [], version = ''1.2'',
      authors = [''adam'', ''zoe''], tags = [],
      dependencies =
        \<lparr>gameVersion = ''0.10.0'', required = [], optional = [], conflicted = []\<rparr>,
      enabled = False, currentState = False\<rparr>"

definition delta_record :: Plugin where
  "delta_record =
     \<lparr>name = ''delta'', path = ''plugins/delta/'', aboutText = ''About delta.'', version = [],
      authors = [], tags = [], dependencies = no_dependencies,
      enabled = False, currentState = False\<rparr>"

text \<open>The locals of \<^verbatim>\<open>Load\<close> after the loop, for \<open>alpha\<close> and for \<open>beta\<close>.\<close>

definition alpha_locals :: Locals where
  "alpha_locals =
     \<lparr>l_name = ''alpha'', l_aboutText = [], l_version = [], l_authors = [], l_tags = [],
      l_dependencies =
        \<lparr>gameVersion = [], required = [''core''], optional = [], conflicted = [''core'']\<rparr>,
      hasName = True\<rparr>"

definition beta_locals :: Locals where
  "beta_locals =
     \<lparr>l_name = ''beta'', l_aboutText = [], l_version = ''1.2'',
      l_authors = [''adam'', ''zoe''], l_tags = [],
      l_dependencies =
        \<lparr>gameVersion = ''0.10.0'', required = [], optional = [], conflicted = []\<rparr>,
      hasName = True\<rparr>"


section \<open>Properties\<close>

subsection \<open>The dependency check\<close>

lemma fst_conflicted_loop:
  "fst (conflicted_loop req opt cs st) =
     (fst st \<and> set cs \<inter> set req = {} \<and> set cs \<inter> set opt = {})"
  by (induction req opt cs st rule: conflicted_loop.induct) (auto simp: set_count_def)

lemma optional_loop_disjoint:
  "set opt \<inter> set req = {} \<Longrightarrow> optional_loop req opt lg = lg"
  by (induction req opt lg rule: optional_loop.induct) (auto simp: set_count_def)

lemma conflicted_loop_disjoint:
  "set cs \<inter> set req = {} \<Longrightarrow> set cs \<inter> set opt = {} \<Longrightarrow> conflicted_loop req opt cs st = st"
  by (induction req opt cs st rule: conflicted_loop.induct) (auto simp: set_count_def)

lemma IsValid_disjoint_no_diagnostics:
  "set (optional d) \<inter> set (required d) = {} \<Longrightarrow>
   set (conflicted d) \<inter> set (required d) = {} \<Longrightarrow>
   set (conflicted d) \<inter> set (optional d) = {} \<Longrightarrow>
     IsValid_run d = (True, [])"
  by (simp add: IsValid_run_def optional_loop_disjoint conflicted_loop_disjoint)

text \<open>
  Claim C1. \<^verbatim>\<open>IsValid()\<close> of a dependency set returns true exactly when no name is in
  both \<open>conflicted\<close> and \<open>required\<close> and no name is in both \<open>conflicted\<close> and
  \<open>optional\<close>. The overlap of \<open>optional\<close> and \<open>required\<close> does not occur in the
  condition, so it cannot make the result false, and disjoint sets give true.
\<close>

theorem IsValid_iff_no_conflicted_overlap:
  "PluginDependencies_IsValid d =
     (set (conflicted d) \<inter> set (required d) = {} \<and> set (conflicted d) \<inter> set (optional d) = {})"
  by (simp add: PluginDependencies_IsValid_def IsValid_run_def fst_conflicted_loop)

subsection \<open>The registry\<close>

lemma map_of_slot_insert:
  "map_of reg k = None \<Longrightarrow> map_of (slot_insert k v reg) = (map_of reg)(k \<mapsto> v)"
  by (induction reg) (auto simp: fun_upd_twist split: if_splits)

lemma map_of_assign:
  "map_of (assign k v reg) = (if map_of reg k = None then map_of reg else (map_of reg)(k \<mapsto> v))"
  by (induction reg) (auto simp: fun_upd_twist)

lemma keys_assign: "map fst (assign k v reg) = map fst reg"
  by (induction reg) auto

lemma keys_slot_insert: "fst ` set (slot_insert k v reg) = insert k (fst ` set reg)"
  by (induction k v reg rule: slot_insert.induct) (simp_all add: insert_commute)

lemma distinct_slot_insert:
  "map_of reg k = None \<Longrightarrow> distinct (map fst reg) \<Longrightarrow> distinct (map fst (slot_insert k v reg))"
  by (induction reg) (auto simp: keys_slot_insert map_of_eq_None_iff split: if_splits)

lemma fst_Get: "fst (Get h k reg) = (case map_of reg k of Some p \<Rightarrow> p | None \<Rightarrow> default_Plugin h)"
  by (simp add: Get_def split: option.splits)

lemma map_of_Get:
  "map_of (snd (Get h k reg)) = (map_of reg)(k \<mapsto> fst (Get h k reg))"
  by (auto simp: Get_def map_of_slot_insert split: option.splits)

subsection \<open>The name of the folder\<close>

lemma find_last_None: "(find_last c xs = None) = (c \<notin> set xs)"
  by (induction xs) (auto split: option.splits)

lemma takeWhile_rev_all: "c \<notin> set xs \<Longrightarrow> rev (takeWhile (\<lambda>x. x \<noteq> c) (rev xs)) = xs"
proof -
  assume "c \<notin> set xs"
  then have "\<forall>x \<in> set (rev xs). x \<noteq> c" by auto
  then have "takeWhile (\<lambda>x. x \<noteq> c) (rev xs) = rev xs"
    by (rule takeWhile_eq_all_conv[THEN iffD2])
  then show ?thesis by (simp only: rev_rev_ident)
qed

lemma find_last_Some:
  "find_last c xs = Some i \<Longrightarrow>
     i < length xs \<and> drop (Suc i) xs = rev (takeWhile (\<lambda>x. x \<noteq> c) (rev xs))"
proof (induction xs arbitrary: i)
  case Nil
  then show ?case by simp
next
  case (Cons x xs)
  have rv: "rev (x # xs) = rev xs @ [x]" by simp
  show ?case
  proof (cases "find_last c xs")
    case None
    with Cons.prems have xc: "x = c" and i0: "i = 0"
      by (auto split: if_splits)
    from None have "c \<notin> set xs" by (simp add: find_last_None)
    then have tw: "takeWhile (\<lambda>x. x \<noteq> c) (rev xs @ [c]) = rev xs"
      by (subst takeWhile_append2) auto
    have "drop (Suc i) (x # xs) = rev (takeWhile (\<lambda>x. x \<noteq> c) (rev (x # xs)))"
      unfolding rv xc i0 by (simp add: tw)
    moreover have "i < length (x # xs)" using i0 by simp
    ultimately show ?thesis by blast
  next
    case (Some j)
    with Cons.prems have ij: "i = Suc j" by simp
    from Cons.IH[OF Some] have j: "j < length xs"
      and d: "drop (Suc j) xs = rev (takeWhile (\<lambda>x. x \<noteq> c) (rev xs))" by blast+
    from Some have "c \<in> set xs" using find_last_None[of c xs] by auto
    then have tw: "takeWhile (\<lambda>x. x \<noteq> c) (rev xs @ [x]) = takeWhile (\<lambda>x. x \<noteq> c) (rev xs)"
      by (intro takeWhile_append1[of c]) auto
    have a: "drop (Suc i) (x # xs) = drop (Suc j) xs" using ij by simp
    have "drop (Suc i) (x # xs) = rev (takeWhile (\<lambda>x. x \<noteq> c) (rev (x # xs)))"
      unfolding rv tw by (rule trans[OF a d])
    moreover have "i < length (x # xs)" using ij j by simp
    ultimately show ?thesis by blast
  qed
qed

lemma size_sub_le: "b \<le> a \<Longrightarrow> a < size_t_range \<Longrightarrow> size_sub a b = a - b"
proof -
  assume le: "b \<le> a" and lt: "a < size_t_range"
  from le have e: "a + size_t_range - b = (a - b) + size_t_range" by arith
  from lt have l: "a - b < size_t_range" by arith
  show ?thesis unfolding size_sub_def e using l by (simp only: mod_add_self2 mod_less)
qed

lemma folder_name_trailing:
  assumes sep: "pth = p @ ''/''" and len: "length pth < size_t_range"
  shows "folder_name pth = Inr (trailing_component pth)"
proof (cases p)
  case Nil
  with sep show ?thesis
    by (simp add: folder_name_def trailing_component_def size_add_def size_sub_def rfind_def
        substr_def npos_def size_t_range_def)
next
  case (Cons a q)
  define n where "n = length p"
  from Cons have n1: "1 \<le> n" by (simp add: n_def)
  from sep have lp: "length pth = Suc n" by (simp add: n_def)
  from len lp have nM: "Suc n < size_t_range" by simp
  have s2: "size_sub (length pth) 2 = n - 1"
    using n1 nM lp by (simp add: size_sub_le)
  have s1: "size_sub (length pth) 1 = n"
    using nM lp by (simp add: size_sub_le)
  have tk: "take (Suc (min (n - 1) (length pth - 1))) pth = p"
    using n1 lp sep by (simp add: n_def min_def)
  have tc: "trailing_component pth = rev (takeWhile (\<lambda>c. c \<noteq> CHR ''/'') (rev p))"
    by (simp add: trailing_component_def sep)
  show ?thesis
  proof (cases "find_last (CHR ''/'') p")
    case None
    then have r: "rfind pth (CHR ''/'') (n - 1) = npos"
      unfolding rfind_def tk by simp
    have pos: "size_add npos 1 = 0"
      by (simp add: size_add_def npos_def size_t_range_def)
    have cnt: "size_sub n 0 = n" using nM by (simp add: size_sub_le)
    from None have "CHR ''/'' \<notin> set p" by (simp add: find_last_None)
    then have t: "trailing_component pth = p" by (simp add: tc takeWhile_rev_all)
    have "substr pth 0 n = Inr p"
      by (simp add: substr_def sep n_def)
    then show ?thesis
      unfolding folder_name_def s2 s1 r pos cnt Let_def t .
  next
    case (Some i)
    then have r: "rfind pth (CHR ''/'') (n - 1) = i"
      unfolding rfind_def tk by simp
    from find_last_Some[OF Some] have i: "i < n"
      and d: "drop (Suc i) p = rev (takeWhile (\<lambda>x. x \<noteq> CHR ''/'') (rev p))"
      by (auto simp: n_def)
    have pos: "size_add i 1 = Suc i"
      using i nM by (simp add: size_add_def)
    have cnt: "size_sub n (Suc i) = n - Suc i" using i nM by (simp add: size_sub_le)
    have "take (n - Suc i) (drop (Suc i) pth) = drop (Suc i) p"
      using i by (simp add: sep n_def)
    then have "substr pth (Suc i) (n - Suc i) = Inr (trailing_component pth)"
      using i lp by (simp add: substr_def tc d)
    then show ?thesis
      unfolding folder_name_def s2 s1 r pos cnt Let_def .
  qed
qed

subsection \<open>The loader\<close>

lemma default_Plugin_invalid: "\<not> Plugin_IsValid (default_Plugin h)"
  by (simp add: Plugin_IsValid_def default_Plugin_def)

lemma Get_valid_unchanged:
  "Plugin_IsValid (fst (Get h k reg)) \<Longrightarrow> snd (Get h k reg) = reg"
  by (auto simp: Get_def default_Plugin_invalid split: option.splits)

lemma snd_Get:
  "snd (Get h k reg) =
     (case map_of reg k of Some p \<Rightarrow> reg | None \<Rightarrow> slot_insert k (default_Plugin h) reg)"
  by (simp add: Get_def split: option.splits)

lemma map_of_assign_Get:
  "map_of (assign k v (snd (Get h k reg))) = (map_of reg)(k \<mapsto> v)"
  by (simp add: map_of_assign map_of_Get)

lemma Load_register_taken:
  "Plugin_IsValid (fst (Get h (l_name v) reg)) \<Longrightarrow> Load_register h fs pth v reg = (None, reg)"
  using Get_valid_unchanged[of h "l_name v" reg]
  by (cases "Get h (l_name v) reg") (simp add: Load_register_def)

lemma Load_register_invalid:
  "\<not> PluginDependencies_IsValid (l_dependencies v) \<Longrightarrow>
     Load_register h fs pth v reg = (None, snd (Get h (l_name v) reg))"
  by (cases "Get h (l_name v) reg") (simp add: Load_register_def)

lemma Load_register_accepted:
  "\<not> Plugin_IsValid (fst (Get h (l_name v) reg)) \<Longrightarrow>
   PluginDependencies_IsValid (l_dependencies v) \<Longrightarrow>
     Load_register h fs pth v reg =
       (Some (l_name v),
        assign (l_name v)
          ((fst (Get h (l_name v) reg))\<lparr>name := l_name v,
             path := pth,
             aboutText :=
               (if l_aboutText v = [] then Files_Read fs (pth @ ''about.txt'') else l_aboutText v),
             version := l_version v,
             authors := l_authors v,
             tags := l_tags v,
             dependencies := l_dependencies v\<rparr>)
          (snd (Get h (l_name v) reg)))"
  by (cases "Get h (l_name v) reg") (simp add: Load_register_def)

lemma Load_Inr:
  "Load h fs pth reg = Inr r \<Longrightarrow> \<exists>v. Load_locals h fs pth = Inr v \<and> r = Load_register h fs pth v reg"
  by (cases "Load_locals h fs pth") (auto simp: Load_def bindE_def)

lemma Load_register_Some:
  "Load_register h fs pth v reg = (Some k, reg') \<Longrightarrow>
     k = l_name v \<and> \<not> Plugin_IsValid (fst (Get h (l_name v) reg)) \<and>
     PluginDependencies_IsValid (l_dependencies v)"
  by (cases "Get h (l_name v) reg") (auto simp: Load_register_def split: if_splits)

subsection \<open>The lists are a std::set and a std::map\<close>

text \<open>
  Insertion keeps a set of strings strictly ascending, and every operation on the
  registry keeps its keys strictly ascending, hence distinct, and keeps every named
  record under its name.
\<close>

lemma set_set_insert: "set (set_insert x s) = insert x (set s)"
  by (induction s) auto

lemma ascending_set_insert: "sorted_wrt (<) s \<Longrightarrow> sorted_wrt (<) (set_insert x s)"
  by (induction s) (auto simp: set_set_insert)

lemma ascending_slot_insert:
  "map_of reg k = None \<Longrightarrow> sorted_wrt (<) (map fst reg) \<Longrightarrow>
     sorted_wrt (<) (map fst (slot_insert k v reg))"
  by (induction k v reg rule: slot_insert.induct)
    (auto simp: keys_slot_insert split: if_splits)

lemma ascending_Get:
  "sorted_wrt (<) (map fst reg) \<Longrightarrow> sorted_wrt (<) (map fst (snd (Get h k reg)))"
  by (cases "map_of reg k") (simp_all add: snd_Get ascending_slot_insert)

lemma ascending_Load:
  "sorted_wrt (<) (map fst reg) \<Longrightarrow> Load h fs pth reg = Inr (r, reg') \<Longrightarrow>
     sorted_wrt (<) (map fst reg')"
proof -
  assume a: "sorted_wrt (<) (map fst reg)" and l: "Load h fs pth reg = Inr (r, reg')"
  from Load_Inr[OF l] obtain v where v: "(r, reg') = Load_register h fs pth v reg" by blast
  show ?thesis
  proof (cases "Get h (l_name v) reg")
    case (Pair plugin reg1)
    with ascending_Get[OF a, of h "l_name v"] have "sorted_wrt (<) (map fst reg1)" by simp
    with v Pair show ?thesis
      by (auto simp: Load_register_def keys_assign split: if_splits)
  qed
qed

lemma ascending_put_flags:
  "sorted_wrt (<) (map fst reg) \<Longrightarrow> sorted_wrt (<) (map fst (put_flags h reg e))"
  by (simp add: put_flags_def keys_assign ascending_Get)

lemma ascending_TogglePlugin:
  "sorted_wrt (<) (map fst reg) \<Longrightarrow> sorted_wrt (<) (map fst (TogglePlugin h nm reg))"
  using ascending_Get[of reg h nm]
  by (cases "Get h nm reg") (simp add: TogglePlugin_def keys_assign)

lemma ascending_distinct: "sorted_wrt (<) (map fst (reg :: registry)) \<Longrightarrow> distinct (map fst reg)"
  by (simp add: strict_sorted_iff)

lemma keys_match_slot_insert:
  "keys_match reg \<Longrightarrow> name v = [] \<or> name v = k \<Longrightarrow> keys_match (slot_insert k v reg)"
  by (induction k v reg rule: slot_insert.induct) (auto simp: keys_match_def)

lemma keys_match_assign:
  "keys_match reg \<Longrightarrow> name v = [] \<or> name v = k \<Longrightarrow> keys_match (assign k v reg)"
  by (induction k v reg rule: assign.induct) (auto simp: keys_match_def)

lemma keys_match_Get:
  assumes "keys_match reg"
  shows "keys_match (snd (Get h k reg)) \<and>
         (name (fst (Get h k reg)) = [] \<or> name (fst (Get h k reg)) = k)"
proof (cases "map_of reg k")
  case None
  with assms show ?thesis
    by (simp add: Get_def keys_match_slot_insert default_Plugin_def)
next
  case (Some p)
  then have "(k, p) \<in> set reg" by (rule map_of_SomeD)
  with assms have "name p = [] \<or> name p = k"
    by (auto simp: keys_match_def list_all_iff)
  with assms Some show ?thesis by (simp add: Get_def)
qed

lemma keys_match_put_flags: "keys_match reg \<Longrightarrow> keys_match (put_flags h reg e)"
  using keys_match_Get[of reg h "fst e"]
  by (auto simp: put_flags_def intro!: keys_match_assign)

lemma keys_match_TogglePlugin: "keys_match reg \<Longrightarrow> keys_match (TogglePlugin h nm reg)"
  using keys_match_Get[of reg h nm]
  by (cases "Get h nm reg") (auto simp: TogglePlugin_def intro!: keys_match_assign)

lemma keys_match_Load:
  assumes a: "keys_match reg" and l: "Load h fs pth reg = Inr (r, reg')"
  shows "keys_match reg'"
proof -
  from Load_Inr[OF l] obtain v where v: "(r, reg') = Load_register h fs pth v reg" by blast
  show ?thesis
  proof (cases "Get h (l_name v) reg")
    case (Pair plugin reg1)
    with keys_match_Get[OF a, of h "l_name v"] have "keys_match reg1" by simp
    with v Pair show ?thesis
      by (auto simp: Load_register_def split: if_splits intro!: keys_match_assign)
  qed
qed

lemma Save_loop_names:
  "keys_match reg \<Longrightarrow>
     Save_loop h reg =
       map (\<lambda>kp. DataNode [name (snd kp), WriteToken h (currentState (snd kp))] [])
         (filter (\<lambda>kp. Plugin_IsValid (snd kp)) reg)"
  by (induction h reg rule: Save_loop.induct) (auto simp: keys_match_def Plugin_IsValid_def)

subsection \<open>The example installation\<close>

lemmas folder_eval =
  folder_name_def size_add_def size_sub_def rfind_def substr_def npos_def size_t_range_def

lemmas node_eval = Token_def Size_def HasChildren_def bindE_def

lemmas example_eval =
  example_host_def example_fs_def example_parse_def DataFile_def Files_Read_def

lemmas register_eval =
  Load_register_def Get_def default_Plugin_def Plugin_IsValid_def
  PluginDependencies_IsValid_def IsValid_run_def set_count_def no_dependencies_def

lemma alpha_Load_locals:
  "Load_locals example_host example_fs ''plugins/alpha/'' = Inr alpha_locals"
  by (simp add: Load_locals_def folder_eval node_eval example_eval alpha_tree_def
      no_dependencies_def alpha_locals_def)

lemma alpha_invalid: "\<not> PluginDependencies_IsValid (l_dependencies alpha_locals)"
  by (simp add: alpha_locals_def PluginDependencies_IsValid_def IsValid_run_def set_count_def)

lemma beta_Load_locals:
  "Load_locals example_host example_fs ''plugins/beta/'' = Inr beta_locals"
  by (simp add: Load_locals_def folder_eval node_eval example_eval beta_tree_def
      no_dependencies_def beta_locals_def)

lemma beta_copy_Load_locals:
  "Load_locals example_host example_fs ''plugins/beta-copy/'' = Inr beta_locals"
  by (simp add: Load_locals_def folder_eval node_eval example_eval beta_tree_def
      no_dependencies_def beta_locals_def)

lemma beta_Load:
  "Load example_host example_fs ''plugins/beta/'' [] = Inr (Some ''beta'', [(''beta'', beta_record)])"
  unfolding Load_def beta_Load_locals
  by (simp add: bindE_def register_eval example_eval beta_record_def beta_locals_def)

lemma beta_Load_overlaid:
  "Load example_host example_fs ''plugins/beta/''
     [(''beta'', (default_Plugin example_host)\<lparr>enabled := True, currentState := True\<rparr>)] =
   Inr (Some ''beta'', [(''beta'', beta_record\<lparr>enabled := True, currentState := True\<rparr>)])"
  unfolding Load_def beta_Load_locals
  by (simp add: bindE_def register_eval example_eval beta_record_def beta_locals_def)

lemma delta_Load:
  "Load example_host example_fs ''plugins/delta/'' [] = Inr (Some ''delta'', [(''delta'', delta_record)])"
  by (simp add: Load_def Load_locals_def folder_eval node_eval register_eval
      example_eval delta_record_def)

lemma more_delta_Load:
  "Load example_host example_fs ''more/delta/'' [(''delta'', delta_record)] =
     Inr (None, [(''delta'', delta_record)])"
  by (simp add: Load_def Load_locals_def folder_eval node_eval register_eval
      example_eval delta_record_def)

subsection \<open>Rejected loads\<close>

text \<open>
  Claim C2, as amended. When the dependency set parsed from \<^verbatim>\<open>plugin.txt\<close> is invalid,
  \<^verbatim>\<open>Load\<close> returns null and adds no valid record. The registry is the one before the
  call when the name already had a slot; when it had none, \<^verbatim>\<open>plugins.Get(name)\<close> has
  created an empty slot under the name before the check, and that slot stays. Every
  other record is as before.
\<close>

theorem Load_invalid_dependencies:
  assumes "Load_locals h fs pth = Inr v"
    and "\<not> PluginDependencies_IsValid (l_dependencies v)"
  shows "\<exists>reg'. Load h fs pth reg = Inr (None, reg') \<and>
           reg' = (case map_of reg (l_name v) of
                     Some p \<Rightarrow> reg
                   | None \<Rightarrow> slot_insert (l_name v) (default_Plugin h) reg) \<and>
           map_of reg' = (case map_of reg (l_name v) of
                     Some p \<Rightarrow> map_of reg
                   | None \<Rightarrow> (map_of reg)(l_name v \<mapsto> default_Plugin h)) \<and>
           \<not> Plugin_IsValid (default_Plugin h)"
proof -
  have "Load h fs pth reg = Inr (None, snd (Get h (l_name v) reg))"
    using assms by (simp add: Load_def bindE_def Load_register_invalid)
  moreover have "map_of (snd (Get h (l_name v) reg)) =
      (case map_of reg (l_name v) of
         Some p \<Rightarrow> map_of reg
       | None \<Rightarrow> (map_of reg)(l_name v \<mapsto> default_Plugin h))"
    by (auto simp: map_of_Get fst_Get split: option.splits)
  ultimately show ?thesis
    by (simp add: snd_Get default_Plugin_invalid)
qed

text \<open>The theorem at \<open>alpha\<close>, loaded into a registry that holds \<open>beta\<close>.\<close>

theorem Load_invalid_dependencies_witness:
  "Load_locals example_host example_fs ''plugins/alpha/'' = Inr alpha_locals \<and>
   \<not> PluginDependencies_IsValid (l_dependencies alpha_locals) \<and>
   (\<exists>reg'. Load example_host example_fs ''plugins/alpha/'' [(''beta'', beta_record)] = Inr (None, reg') \<and>
      map_of reg' ''beta'' = Some beta_record \<and>
      map_of reg' ''alpha'' = Some (default_Plugin example_host))"
  using Load_invalid_dependencies[OF alpha_Load_locals alpha_invalid, of "[(''beta'', beta_record)]"]
    alpha_Load_locals alpha_invalid
  by (simp add: alpha_locals_def)

text \<open>
  The claim as stated fails: loading \<open>alpha\<close> into the empty registry returns null and
  leaves a registry that is not empty.
\<close>

theorem Load_invalid_dependencies_counterexample:
  "Load_locals example_host example_fs ''plugins/alpha/'' = Inr alpha_locals \<and>
   \<not> PluginDependencies_IsValid (l_dependencies alpha_locals) \<and>
   Load example_host example_fs ''plugins/alpha/'' [] =
     Inr (None, [(''alpha'', default_Plugin example_host)]) \<and>
   [(''alpha'', default_Plugin example_host)] \<noteq> ([] :: registry)"
proof -
  have "Load example_host example_fs ''plugins/alpha/'' [] =
     Inr (None, [(''alpha'', default_Plugin example_host)])"
    unfolding Load_def alpha_Load_locals
    by (simp add: bindE_def register_eval alpha_locals_def)
  with alpha_Load_locals alpha_invalid show ?thesis by simp
qed

text \<open>
  Claim C3. The first of two loads returned a handle to a valid record, and the second
  directory resolves to the same name: both directories resolve to that name, the
  second call returns null, and the registry, hence every field of the first record, is
  the same after the second call.
\<close>

theorem Load_duplicate_name:
  assumes first: "Load h fs pth1 reg = Inr (Some k, reg1)"
    and slot: "map_of reg1 k = Some p"
    and valid: "Plugin_IsValid p"
    and second: "Load_locals h fs2 pth2 = Inr v2"
    and same: "l_name v2 = k"
  shows "(\<exists>v1. Load_locals h fs pth1 = Inr v1 \<and> l_name v1 = l_name v2) \<and>
         Load h fs2 pth2 reg1 = Inr (None, reg1)"
proof -
  from Load_Inr[OF first] obtain v1 where v1: "Load_locals h fs pth1 = Inr v1"
    and r: "Load_register h fs pth1 v1 reg = (Some k, reg1)" by auto
  from Load_register_Some[OF r] have "l_name v1 = k" by simp
  with v1 same have a: "\<exists>v1. Load_locals h fs pth1 = Inr v1 \<and> l_name v1 = l_name v2" by auto
  have "fst (Get h (l_name v2) reg1) = p"
    using slot same by (simp add: fst_Get)
  with valid have "Load_register h fs2 pth2 v2 reg1 = (None, reg1)"
    by (simp add: Load_register_taken)
  with second have "Load h fs2 pth2 reg1 = Inr (None, reg1)"
    by (simp add: Load_def bindE_def)
  with a show ?thesis by blast
qed

text \<open>The theorem at \<open>beta\<close> and \<open>beta-copy\<close>.\<close>

theorem Load_duplicate_name_witness:
  "Load example_host example_fs ''plugins/beta/'' [] = Inr (Some ''beta'', [(''beta'', beta_record)]) \<and>
   Plugin_IsValid beta_record \<and>
   Load_locals example_host example_fs ''plugins/beta-copy/'' = Inr beta_locals \<and>
   l_name beta_locals = ''beta'' \<and>
   Load example_host example_fs ''plugins/beta-copy/'' [(''beta'', beta_record)] =
     Inr (None, [(''beta'', beta_record)])"
proof -
  have v: "Plugin_IsValid beta_record" by (simp add: Plugin_IsValid_def beta_record_def)
  have s: "map_of [(''beta'', beta_record)] ''beta'' = Some beta_record" by simp
  have n: "l_name beta_locals = ''beta''" by (simp add: beta_locals_def)
  from Load_duplicate_name[OF beta_Load s v beta_copy_Load_locals n] beta_Load v
    beta_copy_Load_locals n
  show ?thesis by simp
qed

subsection \<open>Accepted loads\<close>

text \<open>
  Claim C8. When \<^verbatim>\<open>Load\<close> returns a handle, the record behind it has the
  \<open>enabled\<close> and \<open>currentState\<close> the slot had before the call (those of the record
  found there, or the initial ones of a slot made by the call), and every other field
  holds what the loader read: the name, the path, the about text or the content of
  \<^verbatim>\<open>about.txt\<close>, the version, the authors, the tags and the dependencies.
\<close>

theorem Load_keeps_state_flags:
  assumes "Load h fs pth reg = Inr (Some k, reg')"
  shows "\<exists>v p'. Load_locals h fs pth = Inr v \<and> k = l_name v \<and> map_of reg' k = Some p' \<and>
           enabled p' = enabled (fst (Get h k reg)) \<and>
           currentState p' = currentState (fst (Get h k reg)) \<and>
           name p' = l_name v \<and> path p' = pth \<and>
           aboutText p' =
             (if l_aboutText v = [] then Files_Read fs (pth @ ''about.txt'') else l_aboutText v) \<and>
           version p' = l_version v \<and> authors p' = l_authors v \<and> tags p' = l_tags v \<and>
           dependencies p' = l_dependencies v"
proof -
  from Load_Inr[OF assms] obtain v where v: "Load_locals h fs pth = Inr v"
    and r: "Load_register h fs pth v reg = (Some k, reg')" by auto
  from Load_register_Some[OF r] have k: "k = l_name v"
    and nv: "\<not> Plugin_IsValid (fst (Get h (l_name v) reg))"
    and dv: "PluginDependencies_IsValid (l_dependencies v)" by auto
  have reg': "reg' = assign (l_name v)
          ((fst (Get h (l_name v) reg))\<lparr>name := l_name v,
             path := pth,
             aboutText :=
               (if l_aboutText v = [] then Files_Read fs (pth @ ''about.txt'') else l_aboutText v),
             version := l_version v,
             authors := l_authors v,
             tags := l_tags v,
             dependencies := l_dependencies v\<rparr>)
          (snd (Get h (l_name v) reg))"
    using r Load_register_accepted[OF nv dv, of fs pth] by (metis snd_conv)
  show ?thesis
    using v k by (simp add: reg' map_of_assign_Get)
qed

text \<open>
  The theorem at \<open>beta\<close>, loaded into a registry where the settings overlay has already
  set both flags of \<open>beta\<close>.
\<close>

theorem Load_keeps_state_flags_witness:
  "Load example_host example_fs ''plugins/beta/''
     [(''beta'', (default_Plugin example_host)\<lparr>enabled := True, currentState := True\<rparr>)] =
   Inr (Some ''beta'', [(''beta'', beta_record\<lparr>enabled := True, currentState := True\<rparr>)]) \<and>
   (\<exists>p'. map_of [(''beta'', beta_record\<lparr>enabled := True, currentState := True\<rparr>)] ''beta'' = Some p' \<and>
      enabled p' \<and> currentState p' \<and> name p' = ''beta'' \<and> version p' = ''1.2'')"
  using Load_keeps_state_flags[OF beta_Load_overlaid] beta_Load_overlaid
  by (simp add: beta_record_def)

text \<open>
  Claim C7, as amended. For a path ending in a separator (and short enough for
  \<^verbatim>\<open>size_t\<close>) with no \<^verbatim>\<open>plugin.txt\<close>, provided the registry holds no valid record
  under the trailing directory name, \<^verbatim>\<open>Load\<close> returns a handle to a record whose name
  is that trailing component, whose about text is the content of \<^verbatim>\<open>about.txt\<close> if the
  file exists and empty otherwise, and whose version, authors, tags and dependencies
  are empty. The record is valid exactly when the trailing component is not empty.
\<close>

theorem Load_without_plugin_txt:
  assumes sep: "pth = dir @ ''/''"
    and len: "length pth < size_t_range"
    and absent: "fs (pth @ ''plugin.txt'') = None"
    and free: "\<not> (\<exists>q. map_of reg (trailing_component pth) = Some q \<and> Plugin_IsValid q)"
  shows "\<exists>reg' p'. Load h fs pth reg = Inr (Some (trailing_component pth), reg') \<and>
           map_of reg' (trailing_component pth) = Some p' \<and>
           name p' = trailing_component pth \<and>
           Plugin_IsValid p' = (trailing_component pth \<noteq> []) \<and>
           path p' = pth \<and>
           aboutText p' = (case fs (pth @ ''about.txt'') of Some txt \<Rightarrow> txt | None \<Rightarrow> []) \<and>
           version p' = [] \<and> authors p' = [] \<and> tags p' = [] \<and>
           dependencies p' = no_dependencies"
proof -
  define n where "n = trailing_component pth"
  define v where "v = \<lparr>l_name = n, l_aboutText = [], l_version = [], l_authors = [], l_tags = [],
          l_dependencies = no_dependencies, hasName = False\<rparr>"
  have fn: "folder_name pth = Inr n"
    unfolding n_def by (rule folder_name_trailing[OF sep len])
  have lv: "Load_locals h fs pth = Inr v"
    by (simp add: Load_locals_def fn bindE_def DataFile_def absent v_def)
  have nv: "\<not> Plugin_IsValid (fst (Get h (l_name v) reg))"
    using free by (auto simp: fst_Get v_def n_def default_Plugin_invalid split: option.splits)
  have dv: "PluginDependencies_IsValid (l_dependencies v)"
    by (simp add: v_def PluginDependencies_IsValid_def IsValid_run_def no_dependencies_def)
  have "Load h fs pth reg = Inr (Load_register h fs pth v reg)"
    by (simp add: Load_def lv bindE_def)
  then show ?thesis
    unfolding Load_register_accepted[OF nv dv] n_def[symmetric]
    by (simp add: v_def map_of_assign_Get Plugin_IsValid_def Files_Read_def)
qed

text \<open>The theorem at \<open>delta\<close>, loaded into the empty registry.\<close>

theorem Load_without_plugin_txt_witness:
  "''plugins/delta/'' = ''plugins/delta'' @ ''/'' \<and>
   length ''plugins/delta/'' < size_t_range \<and>
   example_fs (''plugins/delta/'' @ ''plugin.txt'') = None \<and>
   trailing_component ''plugins/delta/'' = ''delta'' \<and>
   (\<exists>reg' p'. Load example_host example_fs ''plugins/delta/'' [] = Inr (Some ''delta'', reg') \<and>
      map_of reg' ''delta'' = Some p' \<and> name p' = ''delta'' \<and> Plugin_IsValid p' \<and>
      aboutText p' = ''About delta.'' \<and> version p' = [] \<and> authors p' = [] \<and> tags p' = [] \<and>
      dependencies p' = no_dependencies)"
proof -
  have a: "''plugins/delta/'' = ''plugins/delta'' @ ''/''" by simp
  have b: "length ''plugins/delta/'' < size_t_range" by (simp add: size_t_range_def)
  have c: "example_fs (''plugins/delta/'' @ ''plugin.txt'') = None" by (simp add: example_fs_def)
  have t: "trailing_component ''plugins/delta/'' = ''delta''" by (simp add: trailing_component_def)
  have d: "\<not> (\<exists>q. map_of ([] :: registry) (trailing_component ''plugins/delta/'') = Some q \<and> Plugin_IsValid q)"
    by simp
  have e: "example_fs (''plugins/delta/'' @ ''about.txt'') = Some ''About delta.''"
    by (simp add: example_fs_def)
  from Load_without_plugin_txt[where pth = "''plugins/delta/''" and dir = "''plugins/delta''"
      and fs = example_fs and reg = "[]" and h = example_host, OF a b c d, unfolded t e]
  obtain reg' p' where
    "Load example_host example_fs ''plugins/delta/'' [] = Inr (Some ''delta'', reg')"
    "map_of reg' ''delta'' = Some p'" "name p' = ''delta''"
    "Plugin_IsValid p' = (''delta'' \<noteq> [])"
    "aboutText p' = (case Some ''About delta.'' of Some txt \<Rightarrow> txt | None \<Rightarrow> [])"
    "version p' = []" "authors p' = []" "tags p' = []" "dependencies p' = no_dependencies"
    by blast
  then have "\<exists>reg' p'. Load example_host example_fs ''plugins/delta/'' [] = Inr (Some ''delta'', reg') \<and>
      map_of reg' ''delta'' = Some p' \<and> name p' = ''delta'' \<and> Plugin_IsValid p' \<and>
      aboutText p' = ''About delta.'' \<and> version p' = [] \<and> authors p' = [] \<and> tags p' = [] \<and>
      dependencies p' = no_dependencies"
    by (intro exI[of _ reg'] exI[of _ p']) simp
  with a b c t show ?thesis by blast
qed

text \<open>
  The claim as stated fails: \<open>more/delta\<close> has no \<^verbatim>\<open>plugin.txt\<close> either, and loading
  it after \<open>delta\<close> returns null, because the name is taken.
\<close>

theorem Load_without_plugin_txt_counterexample:
  "example_fs (''more/delta/'' @ ''plugin.txt'') = None \<and>
   Load example_host example_fs ''plugins/delta/'' [] =
     Inr (Some ''delta'', [(''delta'', delta_record)]) \<and>
   Load example_host example_fs ''more/delta/'' [(''delta'', delta_record)] =
     Inr (None, [(''delta'', delta_record)])"
  using delta_Load more_delta_Load by (simp add: example_fs_def)

subsection \<open>Token reads\<close>

text \<open>
  Claim C10. The claim is that every token read of the loader is in range. It is not:
  the branch for \<open>game version\<close> reads \<^verbatim>\<open>Token(1)\<close> without the check on
  \<^verbatim>\<open>Size()\<close> that the branches for \<open>name\<close>, \<open>about\<close> and \<open>version\<close> make. On
  \<open>gamma\<close>, whose \<open>game version\<close> line has one token, the read is out of range,
  whatever the registry.
\<close>

theorem Load_game_version_without_value:
  "Load example_host example_fs ''plugins/gamma/'' reg = Inl TokenOutOfRange"
  by (simp add: Load_def Load_locals_def folder_eval node_eval example_eval gamma_tree_def)

subsection \<open>Saving\<close>

lemma HasChanged_iff:
  "HasChanged reg = (\<exists>kp. kp \<in> set reg \<and> enabled (snd kp) \<noteq> currentState (snd kp))"
  by (induction reg rule: HasChanged.induct) auto

lemma Save_loop_eq:
  "Save_loop h reg =
     map (\<lambda>kp. DataNode [fst kp, WriteToken h (currentState (snd kp))] [])
       (filter (\<lambda>kp. Plugin_IsValid (snd kp)) reg)"
  by (induction h reg rule: Save_loop.induct) simp_all

text \<open>
  Claim C5. \<^verbatim>\<open>Save()\<close> leaves the file system as it is when the registry is empty.
  Otherwise it writes, to \<^verbatim>\<open>plugins.txt\<close> in the configuration directory, one top-level
  node \<open>state\<close> whose children are, in the order of the registry, one node
  \<open><key> <currentState>\<close> for each record with a non-empty name; the records with an
  empty name are left out.
\<close>

theorem Save_writes_valid_records:
  "Save h fs reg =
     (if reg = [] then fs
      else fs(Config h @ ''plugins.txt'' \<mapsto>
             serialise h
               [DataNode [''state'']
                  (map (\<lambda>kp. DataNode [fst kp, WriteToken h (currentState (snd kp))] [])
                     (filter (\<lambda>kp. Plugin_IsValid (snd kp)) reg))]))"
  by (simp add: Save_def Save_loop_eq)

subsection \<open>Toggling a name that has no record\<close>








subsection \<open>The settings overlay\<close>

lemma state_children_loop_eq:
  "state_children_loop h cs reg = Inr (foldl (put_flags h) reg (child_entries cs))"
proof (induction cs arbitrary: reg)
  case Nil
  then show ?case by (simp add: child_entries_def)
next
  case (Cons child rest)
  show ?case
  proof (cases "Size child = 2")
    case True
    then obtain k b where tk: "tokens child = [k, b]"
      by (auto simp: Size_def length_Suc_conv numeral_2_eq_2)
    have ce: "child_entries (child # rest) = (k, b) # child_entries rest"
      by (simp add: child_entries_def tk)
    show ?thesis
      unfolding ce
      by (cases "Get h k reg")
        (simp add: Cons.IH Token_def Size_def tk bindE_def DataNode_Value_def put_flags_def)
  next
    case False
    then have ce: "child_entries (child # rest) = child_entries rest"
      by (auto simp: child_entries_def Size_def split: list.splits)
    show ?thesis using False by (simp add: ce Cons.IH)
  qed
qed

lemma prefs_loop_eq:
  "prefs_loop h nodes reg = Inr reg' \<Longrightarrow> reg' = foldl (put_flags h) reg (state_entries nodes)"
proof (induction nodes arbitrary: reg)
  case Nil
  then show ?case by (simp add: state_entries_def)
next
  case (Cons node rest)
  show ?case
  proof (cases "tokens node")
    case Nil
    with Cons.prems show ?thesis by (simp add: Token_def Size_def bindE_def)
  next
    case (Cons t ts)
    show ?thesis
    proof (cases "t = ''state''")
      case True
      have se: "state_entries (node # rest) = child_entries (children node) @ state_entries rest"
        using Cons True by (simp add: state_entries_def)
      from Cons.prems Cons True
      have "prefs_loop h rest (foldl (put_flags h) reg (child_entries (children node))) = Inr reg'"
        by (simp add: Token_def Size_def bindE_def state_children_loop_eq)
      from Cons.IH[OF this] show ?thesis by (simp add: se)
    next
      case False
      have se: "state_entries (node # rest) = state_entries rest"
        using Cons False by (simp add: state_entries_def)
      from Cons.prems Cons False have "prefs_loop h rest reg = Inr reg'"
        by (simp add: Token_def Size_def bindE_def)
      from Cons.IH[OF this] show ?thesis by (simp add: se)
    qed
  qed
qed

lemma prefs_loop_total:
  "(\<And>n. n \<in> set nodes \<Longrightarrow> tokens n \<noteq> []) \<Longrightarrow> \<exists>reg'. prefs_loop h nodes reg = Inr reg'"
proof (induction nodes arbitrary: reg)
  case Nil
  then show ?case by simp
next
  case (Cons node rest)
  then obtain t ts where tk: "tokens node = t # ts" by (cases "tokens node") auto
  from Cons have ih: "\<And>r. \<exists>reg'. prefs_loop h rest r = Inr reg'" by simp
  show ?case
    using ih by (simp add: Token_def Size_def tk bindE_def state_children_loop_eq)
qed

lemma map_of_put_flags:
  "map_of (put_flags h reg e) =
     (map_of reg)(fst e \<mapsto> (fst (Get h (fst e) reg))
        \<lparr>enabled := token_Value h (snd e), currentState := token_Value h (snd e)\<rparr>)"
  by (simp add: put_flags_def map_of_assign_Get)

lemma map_of_foldl_put_flags:
  "map_of (foldl (put_flags h) reg es) nm =
     (case map_of (rev es) nm of
        Some b \<Rightarrow> Some ((fst (Get h nm reg))
                     \<lparr>enabled := token_Value h b, currentState := token_Value h b\<rparr>)
      | None \<Rightarrow> map_of reg nm)"
proof (induction es rule: rev_induct)
  case Nil
  then show ?case by simp
next
  case (snoc e es)
  show ?case
  proof (cases "fst e = nm")
    case True
    then show ?thesis
      using snoc.IH
      by (cases e) (auto simp: map_of_put_flags fst_Get split: option.splits)
  next
    case False
    then show ?thesis
      using snoc.IH by (cases e) (auto simp: map_of_put_flags)
  qed
qed

lemma LoadSettings_overlay:
  assumes g: "\<And>n. n \<in> set (DataFile h fs (Resources h @ ''plugins.txt'')) \<Longrightarrow> tokens n \<noteq> []"
    and l: "\<And>n. n \<in> set (DataFile h fs (Config h @ ''plugins.txt'')) \<Longrightarrow> tokens n \<noteq> []"
  shows "\<exists>reg'. LoadSettings h fs reg = Inr reg' \<and>
           reg' = foldl (put_flags h) reg
                    (state_entries (DataFile h fs (Resources h @ ''plugins.txt'')) @
                     state_entries (DataFile h fs (Config h @ ''plugins.txt''))) \<and>
           (\<forall>nm. map_of reg' nm =
             (case last_entry (DataFile h fs (Config h @ ''plugins.txt'')) nm of
                Some b \<Rightarrow> Some ((fst (Get h nm reg))
                             \<lparr>enabled := token_Value h b, currentState := token_Value h b\<rparr>)
              | None \<Rightarrow>
                 (case last_entry (DataFile h fs (Resources h @ ''plugins.txt'')) nm of
                    Some b \<Rightarrow> Some ((fst (Get h nm reg))
                                 \<lparr>enabled := token_Value h b, currentState := token_Value h b\<rparr>)
                  | None \<Rightarrow> map_of reg nm)))"
proof -
  define G where "G = DataFile h fs (Resources h @ ''plugins.txt'')"
  define L where "L = DataFile h fs (Config h @ ''plugins.txt'')"
  from prefs_loop_total[of G h reg] g obtain reg1 where g1: "prefs_loop h G reg = Inr reg1"
    unfolding G_def by blast
  from prefs_loop_total[of L h reg1] l obtain reg' where l1: "prefs_loop h L reg1 = Inr reg'"
    unfolding L_def by blast
  have ls: "LoadSettings h fs reg = Inr reg'"
    using g1 l1 by (simp add: LoadSettings_def LoadSettingsFromFile_def bindE_def G_def L_def)
  have r1: "reg1 = foldl (put_flags h) reg (state_entries G)" by (rule prefs_loop_eq[OF g1])
  have r2: "reg' = foldl (put_flags h) reg1 (state_entries L)" by (rule prefs_loop_eq[OF l1])
  have a: "reg' = foldl (put_flags h) reg (state_entries G @ state_entries L)"
    by (simp add: r1 r2)
  have b: "map_of reg' nm =
           (case last_entry L nm of
              Some b \<Rightarrow> Some ((fst (Get h nm reg))
                           \<lparr>enabled := token_Value h b, currentState := token_Value h b\<rparr>)
            | None \<Rightarrow>
               (case last_entry G nm of
                  Some b \<Rightarrow> Some ((fst (Get h nm reg))
                               \<lparr>enabled := token_Value h b, currentState := token_Value h b\<rparr>)
                | None \<Rightarrow> map_of reg nm))" for nm
    unfolding a map_of_foldl_put_flags last_entry_def
    by (simp add: map_add_def split: option.splits)
  from ls a b show ?thesis unfolding G_def L_def by blast
qed

text \<open>
  Claim C4. When every top-level node of the two settings files has a token,
  \<^verbatim>\<open>LoadSettings()\<close> returns, and the registry is the one obtained by applying the
  entries of the system-wide file and then those of the user-local file, each entry
  getting or creating the slot of its name and setting both flags to its boolean. For
  every name, the flags are those of the last entry for it in the local file if there is
  one, otherwise those of its last entry in the global file; a name in neither file keeps
  its record.
\<close>

theorem LoadSettings_local_overrides_global:
  assumes "\<And>n. n \<in> set (DataFile h fs (Resources h @ ''plugins.txt'')) \<Longrightarrow> tokens n \<noteq> []"
    and "\<And>n. n \<in> set (DataFile h fs (Config h @ ''plugins.txt'')) \<Longrightarrow> tokens n \<noteq> []"
  shows "\<exists>reg'. LoadSettings h fs reg = Inr reg' \<and>
           reg' = foldl (put_flags h) reg
                    (state_entries (DataFile h fs (Resources h @ ''plugins.txt'')) @
                     state_entries (DataFile h fs (Config h @ ''plugins.txt''))) \<and>
           (\<forall>nm. map_of reg' nm =
             (case last_entry (DataFile h fs (Config h @ ''plugins.txt'')) nm of
                Some b \<Rightarrow> Some ((fst (Get h nm reg))
                             \<lparr>enabled := token_Value h b, currentState := token_Value h b\<rparr>)
              | None \<Rightarrow>
                 (case last_entry (DataFile h fs (Resources h @ ''plugins.txt'')) nm of
                    Some b \<Rightarrow> Some ((fst (Get h nm reg))
                                 \<lparr>enabled := token_Value h b, currentState := token_Value h b\<rparr>)
                  | None \<Rightarrow> map_of reg nm)))"
  using assms by (rule LoadSettings_overlay)

lemmas settings_eval =
  LoadSettings_def LoadSettingsFromFile_def DataFile_def example_host_def example_fs_def
  example_parse_def global_tree_def local_tree_def Token_def Size_def bindE_def
  DataNode_Value_def Get_def default_Plugin_def example_token_Value_def

lemma example_LoadSettings:
  "LoadSettings example_host example_fs [(''beta'', beta_record)] =
     Inr [(''beta'', beta_record\<lparr>enabled := True, currentState := True\<rparr>),
          (''omega'', (default_Plugin example_host)\<lparr>enabled := True, currentState := True\<rparr>)]"
  by (simp add: settings_eval)

text \<open>
  The theorem at the example installation: \<open>beta\<close> is disabled in the global file and
  enabled in the local one, and ends up enabled.
\<close>

theorem LoadSettings_local_overrides_global_witness:
  "last_entry (DataFile example_host example_fs (Resources example_host @ ''plugins.txt'')) ''beta''
     = Some ''0'' \<and>
   last_entry (DataFile example_host example_fs (Config example_host @ ''plugins.txt'')) ''beta''
     = Some ''1'' \<and>
   (\<exists>reg'. LoadSettings example_host example_fs [(''beta'', beta_record)] = Inr reg' \<and>
      map_of reg' ''beta'' = Some (beta_record\<lparr>enabled := True, currentState := True\<rparr>))"
proof -
  have g: "DataFile example_host example_fs (Resources example_host @ ''plugins.txt'') = global_tree"
    by (simp add: DataFile_def example_host_def example_fs_def example_parse_def)
  have l: "DataFile example_host example_fs (Config example_host @ ''plugins.txt'') = local_tree"
    by (simp add: DataFile_def example_host_def example_fs_def example_parse_def)
  have gw: "\<And>n. n \<in> set (DataFile example_host example_fs (Resources example_host @ ''plugins.txt'')) \<Longrightarrow> tokens n \<noteq> []"
    unfolding g by (simp add: global_tree_def)
  have lw: "\<And>n. n \<in> set (DataFile example_host example_fs (Config example_host @ ''plugins.txt'')) \<Longrightarrow> tokens n \<noteq> []"
    unfolding l by (simp add: local_tree_def)
  have ge: "last_entry global_tree ''beta'' = Some ''0''"
    by (simp add: last_entry_def state_entries_def child_entries_def global_tree_def)
  have le: "last_entry local_tree ''beta'' = Some ''1''"
    by (simp add: last_entry_def state_entries_def child_entries_def local_tree_def)
  from LoadSettings_local_overrides_global[where h = example_host and fs = example_fs
      and reg = "[(''beta'', beta_record)]", OF gw lw]
  obtain reg' where r: "LoadSettings example_host example_fs [(''beta'', beta_record)] = Inr reg'"
    and m: "map_of reg' ''beta'' =
      (case last_entry (DataFile example_host example_fs (Config example_host @ ''plugins.txt'')) ''beta'' of
         Some b \<Rightarrow> Some ((fst (Get example_host ''beta'' [(''beta'', beta_record)]))
                     \<lparr>enabled := token_Value example_host b, currentState := token_Value example_host b\<rparr>)
       | None \<Rightarrow>
         (case last_entry (DataFile example_host example_fs (Resources example_host @ ''plugins.txt'')) ''beta'' of
            Some b \<Rightarrow> Some ((fst (Get example_host ''beta'' [(''beta'', beta_record)]))
                     \<lparr>enabled := token_Value example_host b, currentState := token_Value example_host b\<rparr>)
          | None \<Rightarrow> map_of [(''beta'', beta_record)] ''beta''))"
    by blast
  have "map_of reg' ''beta'' = Some (beta_record\<lparr>enabled := True, currentState := True\<rparr>)"
    unfolding m l le by (simp add: Get_def example_host_def example_token_Value_def)
  with r have "\<exists>reg'. LoadSettings example_host example_fs [(''beta'', beta_record)] = Inr reg' \<and>
      map_of reg' ''beta'' = Some (beta_record\<lparr>enabled := True, currentState := True\<rparr>)"
    by blast
  with ge le show ?thesis unfolding g l by blast
qed

subsection \<open>Toggle, save and load again\<close>

lemma TogglePlugin_present:
  "map_of reg x = Some p \<Longrightarrow>
     TogglePlugin h x reg = assign x (p\<lparr>currentState := \<not> currentState p\<rparr>) reg"
  by (simp add: TogglePlugin_def Get_def)

lemma distinct_put_flags:
  "distinct (map fst reg) \<Longrightarrow> distinct (map fst (put_flags h reg e))"
  by (cases "map_of reg (fst e)")
    (simp_all add: put_flags_def keys_assign snd_Get distinct_slot_insert)

lemma distinct_foldl_put_flags:
  "distinct (map fst reg) \<Longrightarrow> distinct (map fst (foldl (put_flags h) reg es))"
  by (induction es arbitrary: reg) (simp_all add: distinct_put_flags)

lemma child_entries_Save_loop:
  "child_entries (Save_loop h reg) =
     map (\<lambda>kp. (fst kp, WriteToken h (currentState (snd kp))))
       (filter (\<lambda>kp. Plugin_IsValid (snd kp)) reg)"
  by (induction h reg rule: Save_loop.induct) (simp_all add: child_entries_def)

lemma state_entries_saved:
  "state_entries [DataNode [''state''] (Save_loop h reg)] =
     map (\<lambda>kp. (fst kp, WriteToken h (currentState (snd kp))))
       (filter (\<lambda>kp. Plugin_IsValid (snd kp)) reg)"
  by (simp add: state_entries_def child_entries_Save_loop)

lemma last_entry_saved:
  assumes d: "distinct (map fst reg)" and m: "map_of reg k = Some q" and v: "Plugin_IsValid q"
  shows "last_entry [DataNode [''state''] (Save_loop h reg)] k = Some (WriteToken h (currentState q))"
proof -
  define E where "E = state_entries [DataNode [''state''] (Save_loop h reg)]"
  from m have mem: "(k, q) \<in> set reg" by (rule map_of_SomeD)
  with v have "(k, WriteToken h (currentState q)) \<in> set E"
    unfolding E_def state_entries_saved by force
  then have "k \<in> fst ` set (rev E)" by force
  then obtain b where b: "map_of (rev E) k = Some b"
    by (cases "map_of (rev E) k") (auto simp: map_of_eq_None_iff)
  then have "(k, b) \<in> set E" using map_of_SomeD[OF b] by simp
  then obtain q' where q': "(k, q') \<in> set reg" and bq: "b = WriteToken h (currentState q')"
    unfolding E_def state_entries_saved by auto
  from d q' have "map_of reg k = Some q'" by simp
  with m have "q' = q" by simp
  with b bq show ?thesis by (simp add: last_entry_def E_def)
qed

text \<open>
  Claim C6. \<open>X\<close> is a valid plugin with both flags false in a registry with unique
  keys where \<^verbatim>\<open>HasChanged()\<close> is false. After \<^verbatim>\<open>TogglePlugin("X")\<close>,
  \<^verbatim>\<open>HasChanged()\<close> is true. \<^verbatim>\<open>Save()\<close> then writes the settings file; provided the
  file reads back as the tree that was written, the token written for true reads back as
  true, and every top-level node of the system-wide file has a token,
  \<^verbatim>\<open>LoadSettings()\<close> returns a registry where \<open>X\<close> has both flags true and
  \<^verbatim>\<open>HasChanged()\<close> is false.
\<close>

theorem toggle_save_load_round_trip:
  assumes d: "distinct (map fst reg)"
    and x: "map_of reg x = Some p"
    and valid: "Plugin_IsValid p"
    and en: "\<not> enabled p"
    and cs: "\<not> currentState p"
    and unchanged: "\<not> HasChanged reg"
    and codec: "parse h (serialise h [DataNode [''state''] (Save_loop h (TogglePlugin h x reg))]) =
                  [DataNode [''state''] (Save_loop h (TogglePlugin h x reg))]"
    and wt: "token_Value h (WriteToken h True)"
    and global: "\<And>n. n \<in> set (DataFile h (Save h fs (TogglePlugin h x reg))
                     (Resources h @ ''plugins.txt'')) \<Longrightarrow> tokens n \<noteq> []"
  shows "HasChanged (TogglePlugin h x reg) \<and>
         (\<exists>reg' p'. LoadSettings h (Save h fs (TogglePlugin h x reg)) (TogglePlugin h x reg) = Inr reg' \<and>
            map_of reg' x = Some p' \<and> enabled p' \<and> currentState p' \<and> \<not> HasChanged reg')"
proof -
  define p1 where "p1 = p\<lparr>currentState := \<not> currentState p\<rparr>"
  define R1 where "R1 = TogglePlugin h x reg"
  define tree where "tree = [DataNode [''state''] (Save_loop h R1)]"
  define fs1 where "fs1 = Save h fs R1"
  define G where "G = DataFile h fs1 (Resources h @ ''plugins.txt'')"
  have R1: "R1 = assign x p1 reg"
    unfolding R1_def p1_def by (rule TogglePlugin_present[OF x])
  have m1: "map_of R1 = (map_of reg)(x \<mapsto> p1)"
    using x by (simp add: R1 map_of_assign)
  have d1: "distinct (map fst R1)" using d by (simp add: R1 keys_assign)
  have v1: "Plugin_IsValid p1" using valid by (simp add: p1_def Plugin_IsValid_def)
  have c1: "currentState p1" and e1: "\<not> enabled p1" using cs en by (simp_all add: p1_def)
  from m1 have mem: "(x, p1) \<in> set R1" by (intro map_of_SomeD) simp
  then have hc: "HasChanged R1" using c1 e1 by (auto simp: HasChanged_iff)
  from mem have ne: "R1 \<noteq> []" by auto
  have fs1: "fs1 = fs(Config h @ ''plugins.txt'' \<mapsto> serialise h tree)"
    using ne by (simp add: fs1_def Save_def tree_def)
  have L: "DataFile h fs1 (Config h @ ''plugins.txt'') = tree"
    using codec by (simp add: DataFile_def fs1 tree_def R1_def)
  have lw: "\<And>n. n \<in> set (DataFile h fs1 (Config h @ ''plugins.txt'')) \<Longrightarrow> tokens n \<noteq> []"
    unfolding L by (simp add: tree_def)
  have gw: "\<And>n. n \<in> set (DataFile h fs1 (Resources h @ ''plugins.txt'')) \<Longrightarrow> tokens n \<noteq> []"
    using global unfolding fs1_def R1_def by blast
  from LoadSettings_overlay[where h = h and fs = fs1 and reg = R1, OF gw lw, unfolded L, folded G_def]
  obtain reg' where ls: "LoadSettings h fs1 R1 = Inr reg'"
    and fold: "reg' = foldl (put_flags h) R1 (state_entries G @ state_entries tree)"
    and ov: "\<And>nm. map_of reg' nm =
             (case last_entry tree nm of
                Some b \<Rightarrow> Some ((fst (Get h nm R1))
                             \<lparr>enabled := token_Value h b, currentState := token_Value h b\<rparr>)
              | None \<Rightarrow>
                 (case last_entry G nm of
                    Some b \<Rightarrow> Some ((fst (Get h nm R1))
                                 \<lparr>enabled := token_Value h b, currentState := token_Value h b\<rparr>)
                  | None \<Rightarrow> map_of R1 nm))"
    by blast
  have lx: "last_entry tree x = Some (WriteToken h True)"
    using last_entry_saved[OF d1, of x p1 h] m1 v1 c1 by (simp add: tree_def)
  define p' where "p' = (fst (Get h x R1))
      \<lparr>enabled := token_Value h (WriteToken h True), currentState := token_Value h (WriteToken h True)\<rparr>"
  have mx: "map_of reg' x = Some p'" by (simp add: ov lx p'_def)
  have fx: "enabled p' \<and> currentState p'" using wt by (simp add: p'_def)
  have dr: "distinct (map fst reg')" unfolding fold by (rule distinct_foldl_put_flags[OF d1])
  have nhc: "\<not> HasChanged reg'"
  proof
    assume "HasChanged reg'"
    then obtain k q where kq: "(k, q) \<in> set reg'" and diff: "enabled q \<noteq> currentState q"
      by (auto simp: HasChanged_iff)
    from dr kq have mq: "map_of reg' k = Some q" by simp
    show False
    proof (cases "last_entry tree k")
      case (Some b)
      with mq ov[of k] diff show False by auto
    next
      case None
      note lt = None
      show False
      proof (cases "last_entry G k")
        case (Some b)
        with mq ov[of k] lt diff show False by auto
      next
        case None
        with mq ov[of k] lt have r1: "map_of R1 k = Some q" by simp
        from lt lx have "k \<noteq> x" by auto
        with r1 m1 have "map_of reg k = Some q" by simp
        then have "(k, q) \<in> set reg" by (rule map_of_SomeD)
        with diff have "HasChanged reg" by (auto simp: HasChanged_iff)
        with unchanged show False by simp
      qed
    qed
  qed
  from ls mx fx nhc have "\<exists>reg' p'. LoadSettings h fs1 R1 = Inr reg' \<and>
            map_of reg' x = Some p' \<and> enabled p' \<and> currentState p' \<and> \<not> HasChanged reg'"
    by blast
  with hc show ?thesis unfolding fs1_def R1_def by blast
qed

lemma example_TogglePlugin:
  "TogglePlugin example_host ''beta'' [(''beta'', beta_record)] =
     [(''beta'', beta_record\<lparr>currentState := True\<rparr>)]"
  by (simp add: TogglePlugin_def Get_def beta_record_def)

lemma example_Save_loop:
  "Save_loop example_host [(''beta'', beta_record\<lparr>currentState := True\<rparr>)] =
     [DataNode [''beta'', ''1''] []]"
  by (simp add: Plugin_IsValid_def beta_record_def example_host_def example_WriteToken_def)

text \<open>The theorem at \<open>beta\<close> in the example installation.\<close>

theorem toggle_save_load_round_trip_witness:
  "Plugin_IsValid beta_record \<and> \<not> enabled beta_record \<and> \<not> currentState beta_record \<and>
   \<not> HasChanged [(''beta'', beta_record)] \<and>
   HasChanged (TogglePlugin example_host ''beta'' [(''beta'', beta_record)]) \<and>
   (\<exists>reg' p'.
      LoadSettings example_host
        (Save example_host example_fs (TogglePlugin example_host ''beta'' [(''beta'', beta_record)]))
        (TogglePlugin example_host ''beta'' [(''beta'', beta_record)]) = Inr reg' \<and>
      map_of reg' ''beta'' = Some p' \<and> enabled p' \<and> currentState p' \<and> \<not> HasChanged reg')"
proof -
  have d: "distinct (map fst [(''beta'', beta_record)])" by simp
  have x: "map_of [(''beta'', beta_record)] ''beta'' = Some beta_record" by simp
  have v: "Plugin_IsValid beta_record" by (simp add: Plugin_IsValid_def beta_record_def)
  have e: "\<not> enabled beta_record" by (simp add: beta_record_def)
  have c: "\<not> currentState beta_record" by (simp add: beta_record_def)
  have u: "\<not> HasChanged [(''beta'', beta_record)]" by (simp add: beta_record_def)
  have codec: "parse example_host (serialise example_host
      [DataNode [''state''] (Save_loop example_host (TogglePlugin example_host ''beta'' [(''beta'', beta_record)]))]) =
      [DataNode [''state''] (Save_loop example_host (TogglePlugin example_host ''beta'' [(''beta'', beta_record)]))]"
    unfolding example_TogglePlugin example_Save_loop
    by (simp add: example_host_def example_serialise_def example_parse_def local_tree_def)
  have wt: "token_Value example_host (WriteToken example_host True)"
    by (simp add: example_host_def example_token_Value_def example_WriteToken_def)
  have g: "DataFile example_host
      (Save example_host example_fs (TogglePlugin example_host ''beta'' [(''beta'', beta_record)]))
      (Resources example_host @ ''plugins.txt'') = global_tree"
    unfolding example_TogglePlugin
    by (simp add: DataFile_def Save_def example_host_def example_fs_def example_parse_def)
  have gw: "\<And>n. n \<in> set (DataFile example_host
      (Save example_host example_fs (TogglePlugin example_host ''beta'' [(''beta'', beta_record)]))
      (Resources example_host @ ''plugins.txt'')) \<Longrightarrow> tokens n \<noteq> []"
    unfolding g by (simp add: global_tree_def)
  from toggle_save_load_round_trip[where h = example_host and fs = example_fs and x = "''beta''"
      and reg = "[(''beta'', beta_record)]" and p = beta_record, OF d x v e c u codec wt gw]
    v e c u
  show ?thesis by blast
qed

end
